theory Spec2Isabelle
  imports Main "HOL-Library.Multiset"
begin

section \<open>Data model\<close>

text \<open>
  The backend (\<^verbatim>\<open>src/backend/src/index.ts\<close>) keeps no data structure of its own: room
  membership lives in the socket.io adapter, messages live in the Store's \<^verbatim>\<open>messages\<close>
  table, and everything a client can observe is an event emitted to sockets. The model
  makes the three explicit.
\<close>

type_synonym socket_id = string
type_synonym room = string

text \<open>
  A message object. The handler of \<^verbatim>\<open>send-message\<close> builds it with four fields
  (index.ts, lines 141-146); a row of the \<^verbatim>\<open>messages\<close> table has the \<^verbatim>\<open>id\<close> column as
  well (interface \<^verbatim>\<open>Message\<close> of the frontend, lines 13-19). \<open>msg_id = None\<close> is an
  object without an \<^verbatim>\<open>id\<close> field. \<^verbatim>\<open>created_at\<close> is the clock reading behind
  \<^verbatim>\<open>new Date().toISOString()\<close>, in milliseconds: ISO strings of one length order as
  their instants do.
\<close>

record message =
  msg_id :: "nat option"
  room_id :: room
  user_email :: string
  msg_text :: string
  created_at :: nat

text \<open>The events the server emits, with the payloads the code passes to \<^verbatim>\<open>emit\<close>.\<close>

datatype event =
    RoomHistory "message list"
  | ActiveUsers nat
  | NewMessage message
  | ErrorEvent string


text \<open>
  \<open>rooms\<close> is the adapter's map from a room to the sockets in it, \<open>messages\<close> the
  Store's table in commit order, \<open>outbox\<close> the emissions so far, oldest first, each with
  the set of sockets it is sent to.
\<close>

record state =
  rooms :: "room \<Rightarrow> socket_id set"
  messages :: "message list"
  outbox :: "(socket_id set \<times> event) list"

definition init :: state where
  "init = \<lparr>rooms = (\<lambda>_. {}), messages = [], outbox = []\<rparr>"

section \<open>The Store, as the handlers see it\<close>

text \<open>
  The Store is Supabase, a service outside the repository; the handlers reach it through
  two calls on the table \<^verbatim>\<open>messages\<close>. A call resolves to an object
  \<^verbatim>\<open>{ data, error }\<close> or rejects (the \<^verbatim>\<open>await\<close> throws). What the Store and the
  network do with one call is not decided by the server, so it is an input: \<open>fault\<close>.
\<close>

datatype fault = Succeeds | Fails | Throws

record 'a response =
  resp_data :: "'a option"
  resp_error :: "string option"

datatype 'a awaited = Resolved 'a | Rejected

text \<open>
  What the handlers test after an \<^verbatim>\<open>await\<close>: the call threw, or its answer carries an
  error.
\<close>

definition call_failed :: "'a response awaited \<Rightarrow> bool" where
  "call_failed a = (case a of Rejected \<Rightarrow> True | Resolved r \<Rightarrow> resp_error r \<noteq> None)"

text \<open>
  \<^verbatim>\<open>supabase.from('messages').insert(msg)\<close>: a committed insert appends the row, with
  the identifier the table assigns; a failed one leaves the table as it was.
\<close>

definition store_insert ::
  "fault \<Rightarrow> message \<Rightarrow> message list \<Rightarrow> message list \<times> unit response awaited" where
  "store_insert f msg tbl =
     (case f of
        Succeeds \<Rightarrow>
          (tbl @ [msg\<lparr>msg_id := Some (Suc (length tbl))\<rparr>],
           Resolved \<lparr>resp_data = None, resp_error = None\<rparr>)
      | Fails \<Rightarrow> (tbl, Resolved \<lparr>resp_data = None, resp_error = Some ''insert failed''\<rparr>)
      | Throws \<Rightarrow> (tbl, Rejected))"

text \<open>
  \<^verbatim>\<open>.select('*').eq('room_id', roomId).order('created_at', { ascending: true })\<close>:
  the rows of the room, sorted by creation time (rows of equal time stay in commit
  order).
\<close>

definition store_select ::
  "fault \<Rightarrow> room \<Rightarrow> message list \<Rightarrow> message list response awaited" where
  "store_select f roomId tbl =
     (case f of
        Succeeds \<Rightarrow>
          Resolved \<lparr>resp_data = Some (sort_key created_at (filter (\<lambda>m. room_id m = roomId) tbl)),
                    resp_error = None\<rparr>
      | Fails \<Rightarrow> Resolved \<lparr>resp_data = None, resp_error = Some ''select failed''\<rparr>
      | Throws \<Rightarrow> Rejected)"

section \<open>The socket.io calls the handlers make\<close>

text \<open>
  socket.io is a library outside the repository; each call below has the meaning its
  documentation gives it for a single server with the default adapter.
\<close>

text \<open>\<^verbatim>\<open>socket.join(roomId)\<close>: the adapter adds the socket to the room's set.\<close>

definition socket_join :: "socket_id \<Rightarrow> room \<Rightarrow> state \<Rightarrow> state" where
  "socket_join sid roomId s = s\<lparr>rooms := (rooms s)(roomId := insert sid (rooms s roomId))\<rparr>"

text \<open>\<^verbatim>\<open>socket.emit(ev, payload)\<close>: one emission, to this socket only.\<close>

definition socket_emit :: "socket_id \<Rightarrow> event \<Rightarrow> state \<Rightarrow> state" where
  "socket_emit sid ev s = s\<lparr>outbox := outbox s @ [({sid}, ev)]\<rparr>"

text \<open>\<^verbatim>\<open>io.to(roomId).emit(ev, payload)\<close>: one emission, to the sockets in the room now.\<close>

definition io_to_emit :: "room \<Rightarrow> event \<Rightarrow> state \<Rightarrow> state" where
  "io_to_emit roomId ev s = s\<lparr>outbox := outbox s @ [(rooms s roomId, ev)]\<rparr>"

text \<open>\<^verbatim>\<open>io.in(roomId).allSockets()\<close>: the set of the socket ids in the room.\<close>

definition allSockets :: "room \<Rightarrow> state \<Rightarrow> socket_id set" where
  "allSockets roomId s = rooms s roomId"

text \<open>
  When a connection opens, socket.io puts the socket into the room named by its own id;
  when it closes, socket.io takes the socket out of every room and then fires
  \<^verbatim>\<open>disconnect\<close>.
\<close>

definition socket_connect :: "socket_id \<Rightarrow> state \<Rightarrow> state" where
  "socket_connect sid s = socket_join sid sid s"

definition socket_leave_all :: "socket_id \<Rightarrow> state \<Rightarrow> state" where
  "socket_leave_all sid s = s\<lparr>rooms := (\<lambda>r. rooms s r - {sid})\<rparr>"

section \<open>The handlers\<close>

text \<open>
  What a client sends along with an event. Both handlers destructure it first (index.ts
  lines 105 and 138), inside their \<^verbatim>\<open>try\<close>. A payload that is \<^verbatim>\<open>null\<close> or
  \<^verbatim>\<open>undefined\<close> cannot be destructured: the statement throws and the \<^verbatim>\<open>catch\<close>
  answers. Such a payload is \<open>None\<close>; \<open>Some\<close> is an object whose fields are strings.
\<close>

record join_data =
  data_roomId :: room
  data_userEmail :: string


text \<open>
  \<^verbatim>\<open>socket.on('join-room', ...)\<close>, index.ts lines 103-134, for a payload that has been
  destructured, in the parts its two \<^verbatim>\<open>await\<close>s cut it into. Up to the first
  \<^verbatim>\<open>await\<close> (lines 106-115) the handler calls \<^verbatim>\<open>socket.join\<close> and issues the history
  query.

  \<open>join_room_resume\<close> is lines 117-126, what runs once the query has been answered: on
  an error (\<^verbatim>\<open>if (error)\<close>, line 117) or an exception (\<^verbatim>\<open>catch\<close>, line 130) the socket
  gets an \<^verbatim>\<open>error\<close> event and the handler is over (\<open>None\<close>); otherwise the socket gets
  the history, and \<^verbatim>\<open>io.in(roomId).allSockets()\<close> is evaluated: the set of the sockets in
  the room as it is at this moment, which the handler awaits.

  \<open>join_room_emit\<close> is lines 127-129, what runs after that second \<^verbatim>\<open>await\<close>: the size
  of the set is emitted to the sockets that are in the room by then.
  \<^verbatim>\<open>console\<close> output is not modelled.
\<close>

definition join_room_resume ::
  "socket_id \<Rightarrow> room \<Rightarrow> message list response awaited \<Rightarrow> state \<Rightarrow>
   state \<times> socket_id set option" where
  "join_room_resume sid roomId a s =
     (case a of
        Rejected \<Rightarrow> (socket_emit sid (ErrorEvent ''Failed to join room'') s, None)
      | Resolved r \<Rightarrow>
          if resp_error r \<noteq> None
          then (socket_emit sid (ErrorEvent ''Failed to load room history'') s, None)
          else
            let s2 = socket_emit sid
                       (RoomHistory (case resp_data r of None \<Rightarrow> [] | Some msgs \<Rightarrow> msgs)) s
            in (s2, Some (allSockets roomId s2)))"

definition join_room_emit :: "room \<Rightarrow> socket_id set \<Rightarrow> state \<Rightarrow> state" where
  "join_room_emit roomId clients s = io_to_emit roomId (ActiveUsers (card clients)) s"

text \<open>
  One handler run with nothing else in between: join, query, continue, emit. \<open>f\<close> is
  the fate of the history query.
\<close>

definition join_room :: "socket_id \<Rightarrow> room \<Rightarrow> string \<Rightarrow> fault \<Rightarrow> state \<Rightarrow> state" where
  "join_room sid roomId userEmail f s =
     (let s1 = socket_join sid roomId s;
          (s2, c) = join_room_resume sid roomId (store_select f roomId (messages s1)) s1
      in case c of
           None \<Rightarrow> s2
         | Some clients \<Rightarrow> join_room_emit roomId clients s2)"


text \<open>
  \<^verbatim>\<open>socket.on('send-message', ...)\<close>, index.ts lines 136-163, for a payload that has
  been destructured, in the two parts the \<^verbatim>\<open>await\<close> cuts it into: building the message
  (lines 139-146), and what runs once the insert has been answered (lines 150-162).
\<close>

definition send_message_msg :: "room \<Rightarrow> string \<Rightarrow> string \<Rightarrow> nat \<Rightarrow> message" where
  "send_message_msg roomId userEmail txt now =
     \<lparr>msg_id = None, room_id = roomId, user_email = userEmail, msg_text = txt,
      created_at = now\<rparr>"

definition send_message_resume ::
  "socket_id \<Rightarrow> room \<Rightarrow> message \<Rightarrow> unit response awaited \<Rightarrow> state \<Rightarrow> state" where
  "send_message_resume sid roomId msg a s =
     (case a of
        Rejected \<Rightarrow> socket_emit sid (ErrorEvent ''Failed to send message'') s
      | Resolved r \<Rightarrow>
          if resp_error r \<noteq> None
          then socket_emit sid (ErrorEvent ''Failed to send message'') s
          else io_to_emit roomId (NewMessage msg) s)"

text \<open>One handler run with nothing else in between: build, insert, continue.\<close>

definition send_message ::
  "socket_id \<Rightarrow> room \<Rightarrow> string \<Rightarrow> string \<Rightarrow> nat \<Rightarrow> fault \<Rightarrow> state \<Rightarrow> state" where
  "send_message sid roomId userEmail txt now f s =
     (let msg = send_message_msg roomId userEmail txt now;
          (tbl, a) = store_insert f msg (messages s)
      in send_message_resume sid roomId msg a (s\<lparr>messages := tbl\<rparr>))"


text \<open>
  \<^verbatim>\<open>socket.on('disconnect', ...)\<close>, index.ts lines 165-167: the handler writes a log
  line and nothing else. \<open>disconnect\<close> is the whole of a connection closing: socket.io's
  cleanup, then the handler.
\<close>

definition on_disconnect :: "socket_id \<Rightarrow> state \<Rightarrow> state" where
  "on_disconnect sid s = s"

definition disconnect :: "socket_id \<Rightarrow> state \<Rightarrow> state" where
  "disconnect sid s = on_disconnect sid (socket_leave_all sid s)"

section \<open>What a socket observes\<close>

definition observed :: "socket_id \<Rightarrow> state \<Rightarrow> event list" where
  "observed sid s = map snd (filter (\<lambda>(to, ev). sid \<in> to) (outbox s))"

fun new_messages :: "event list \<Rightarrow> message list" where
  "new_messages [] = []"
| "new_messages (NewMessage m # evs) = m # new_messages evs"
| "new_messages (_ # evs) = new_messages evs"

fun active_users :: "event list \<Rightarrow> nat list" where
  "active_users [] = []"
| "active_users (ActiveUsers n # evs) = n # active_users evs"
| "active_users (_ # evs) = active_users evs"

fun room_histories :: "event list \<Rightarrow> message list list" where
  "room_histories [] = []"
| "room_histories (RoomHistory h # evs) = h # room_histories evs"
| "room_histories (_ # evs) = room_histories evs"

fun errors :: "event list \<Rightarrow> string list" where
  "errors [] = []"
| "errors (ErrorEvent e # evs) = e # errors evs"
| "errors (_ # evs) = errors evs"

text \<open>The emissions a run from \<open>s\<close> to \<open>s'\<close> has added.\<close>

definition emitted :: "state \<Rightarrow> state \<Rightarrow> (socket_id set \<times> event) list" where
  "emitted s s' = drop (length (outbox s)) (outbox s')"

text \<open>The rows a run from \<open>s\<close> to \<open>s'\<close> has committed, in commit order.\<close>

definition committed :: "state \<Rightarrow> state \<Rightarrow> message list" where
  "committed s s' = drop (length (messages s)) (messages s')"

text \<open>A row as the object the handler built: the same fields, no identifier.\<close>

definition unrow :: "message \<Rightarrow> message" where
  "unrow m = m\<lparr>msg_id := None\<rparr>"

section \<open>Handler runs, one at a time\<close>

datatype call =
    Connect socket_id
  | JoinRoom socket_id room string fault
  | SendMessage socket_id room string string nat fault
  | Disconnect socket_id

fun handle :: "call \<Rightarrow> state \<Rightarrow> state" where
  "handle (Connect sid) s = socket_connect sid s"
| "handle (JoinRoom sid roomId userEmail f) s = join_room sid roomId userEmail f s"
| "handle (SendMessage sid roomId userEmail txt now f) s =
     send_message sid roomId userEmail txt now f s"
| "handle (Disconnect sid) s = disconnect sid s"

fun handle_all :: "call list \<Rightarrow> state \<Rightarrow> state" where
  "handle_all [] s = s"
| "handle_all (c # cs) s = handle_all cs (handle c s)"

section \<open>Overlapping sends\<close>

text \<open>
  Node runs a handler without interruption up to an \<^verbatim>\<open>await\<close> and resumes it when
  the awaited call has been answered; other handlers run in between. For
  \<^verbatim>\<open>send-message\<close> that gives three kinds of step: the handler starts and issues the
  insert (\<open>Begin\<close>), the Store handles insert number \<open>k\<close> (\<open>Insert\<close>), the handler
  that waits for insert number \<open>k\<close> continues (\<open>Resume\<close>). The code has no lock or
  queue, so any order of steps that respects "issued, then handled, then
  continued" for each send is a run.
\<close>

record request =
  req_socket :: socket_id
  req_room :: room
  req_msg :: message
  req_answer :: "unit response awaited option"
  req_resumed :: bool

record system =
  server :: state
  requests :: "request list"

datatype action =
    Begin socket_id room string string nat
  | Insert nat fault
  | Resume nat

fun step :: "action \<Rightarrow> system \<Rightarrow> system option" where
  "step (Begin sid roomId userEmail txt now) y =
     Some (y\<lparr>requests := requests y @
       [\<lparr>req_socket = sid, req_room = roomId,
         req_msg = send_message_msg roomId userEmail txt now,
         req_answer = None, req_resumed = False\<rparr>]\<rparr>)"
| "step (Insert k f) y =
     (if k < length (requests y) \<and> req_answer (requests y ! k) = None
      then
        let q = requests y ! k;
            (tbl, a) = store_insert f (req_msg q) (messages (server y))
        in Some (y\<lparr>server := (server y)\<lparr>messages := tbl\<rparr>,
                   requests := (requests y)[k := q\<lparr>req_answer := Some a\<rparr>]\<rparr>)
      else None)"
| "step (Resume k) y =
     (if k < length (requests y) \<and> \<not> req_resumed (requests y ! k)
      then
        let q = requests y ! k
        in case req_answer q of
             None \<Rightarrow> None
           | Some a \<Rightarrow>
               Some (y\<lparr>server := send_message_resume (req_socket q) (req_room q) (req_msg q) a
                                   (server y),
                       requests := (requests y)[k := q\<lparr>req_resumed := True\<rparr>]\<rparr>)
      else None)"

fun run :: "action list \<Rightarrow> system \<Rightarrow> system option" where
  "run [] y = Some y"
| "run (a # as) y = (case step a y of None \<Rightarrow> None | Some y' \<Rightarrow> run as y')"

text \<open>
  A serial schedule: each send is issued, handled and continued before the next one
  starts. \<open>k\<close> is the number the first insert gets.
\<close>

type_synonym send = "socket_id \<times> room \<times> string \<times> string \<times> nat \<times> fault"

fun serial :: "nat \<Rightarrow> send list \<Rightarrow> action list" where
  "serial k [] = []"
| "serial k ((sid, roomId, userEmail, txt, now, f) # xs) =
     Begin sid roomId userEmail txt now # Insert k f # Resume k # serial (Suc k) xs"

fun sends :: "send list \<Rightarrow> state \<Rightarrow> state" where
  "sends [] s = s"
| "sends ((sid, roomId, userEmail, txt, now, f) # xs) s =
     sends xs (send_message sid roomId userEmail txt now f s)"

section \<open>A join among other events\<close>

text \<open>
  The handler of \<^verbatim>\<open>join-room\<close> awaits twice, so other handlers, and connections
  opening and closing, run between its parts. A join, once its payload has been
  destructured and \<^verbatim>\<open>socket.join\<close> has run (\<open>JoinBegin\<close>), waits for its query; the
  Store answers query number \<open>k\<close> from the table as it is then (\<open>Query\<close>); the handler
  continues with the answer (\<open>JoinResume\<close>), and after the second \<^verbatim>\<open>await\<close> emits the
  count (\<open>JoinEmit\<close>). \<open>Other\<close> is anything else the server handles in between, as a
  whole: a connection opening or closing, a send, another join.
\<close>

record join_request =
  jr_socket :: socket_id
  jr_room :: room
  jr_answer :: "message list response awaited option"
  jr_clients :: "socket_id set option"
  jr_done :: bool

record join_system =
  jserver :: state
  joins :: "join_request list"

datatype join_action =
    JoinBegin socket_id "join_data option"
  | Query nat fault
  | JoinResume nat
  | JoinEmit nat
  | Other call

fun join_step :: "join_action \<Rightarrow> join_system \<Rightarrow> join_system option" where
  "join_step (JoinBegin sid data) y =
     (case data of
        None \<Rightarrow>
          Some (y\<lparr>jserver := socket_emit sid (ErrorEvent ''Failed to join room'') (jserver y)\<rparr>)
      | Some d \<Rightarrow>
          Some (y\<lparr>jserver := socket_join sid (data_roomId d) (jserver y),
                  joins := joins y @
                    [\<lparr>jr_socket = sid, jr_room = data_roomId d, jr_answer = None,
                      jr_clients = None, jr_done = False\<rparr>]\<rparr>))"
| "join_step (Query k f) y =
     (if k < length (joins y) \<and> jr_answer (joins y ! k) = None
      then
        let q = joins y ! k
        in Some (y\<lparr>joins := (joins y)
                   [k := q\<lparr>jr_answer :=
                              Some (store_select f (jr_room q) (messages (jserver y)))\<rparr>]\<rparr>)
      else None)"
| "join_step (JoinResume k) y =
     (if k < length (joins y) \<and> \<not> jr_done (joins y ! k) \<and> jr_clients (joins y ! k) = None
      then
        let q = joins y ! k
        in case jr_answer q of
             None \<Rightarrow> None
           | Some a \<Rightarrow>
               let (s', c) = join_room_resume (jr_socket q) (jr_room q) a (jserver y)
               in Some (y\<lparr>jserver := s',
                          joins := (joins y)[k := q\<lparr>jr_clients := c, jr_done := (c = None)\<rparr>]\<rparr>)
      else None)"
| "join_step (JoinEmit k) y =
     (if k < length (joins y) \<and> \<not> jr_done (joins y ! k)
      then
        let q = joins y ! k
        in case jr_clients q of
             None \<Rightarrow> None
           | Some clients \<Rightarrow>
               Some (y\<lparr>jserver := join_room_emit (jr_room q) clients (jserver y),
                       joins := (joins y)[k := q\<lparr>jr_done := True\<rparr>]\<rparr>)
      else None)"
| "join_step (Other c) y = Some (y\<lparr>jserver := handle c (jserver y)\<rparr>)"

fun join_run :: "join_action list \<Rightarrow> join_system \<Rightarrow> join_system option" where
  "join_run [] y = Some y"
| "join_run (a # as) y = (case join_step a y of None \<Rightarrow> None | Some y' \<Rightarrow> join_run as y')"

section \<open>The client's listeners\<close>





section \<open>Example states and schedules\<close>

text \<open>
  Three sockets are connected; \<open>A\<close> and \<open>B\<close> have joined the room \<open>general\<close>, \<open>C\<close>
  has joined no room.
\<close>

definition lobby :: state where
  "lobby =
     handle_all [Connect ''A'', Connect ''B'', Connect ''C'',
                 JoinRoom ''A'' ''general'' ''a@x'' Succeeds,
                 JoinRoom ''B'' ''general'' ''b@x'' Succeeds] init"

text \<open>
  \<open>A\<close> sends "hi" and \<open>B\<close> sends "there" while \<open>A\<close>'s insert is still in flight; the
  Store commits "hi" first, but the answer to \<open>B\<close>'s insert comes back first.
\<close>

definition overlapping :: "action list" where
  "overlapping =
     [Begin ''A'' ''general'' ''a@x'' ''hi'' 1,
      Begin ''B'' ''general'' ''b@x'' ''there'' 2,
      Insert 0 Succeeds, Insert 1 Succeeds,
      Resume 1, Resume 0]"














text \<open>
  \<open>A\<close> and \<open>B\<close> connect and join \<open>general\<close> at the same time: both handlers have
  called \<^verbatim>\<open>socket.join\<close> before either query is answered.
\<close>

definition doorstep :: join_system where
  "doorstep = \<lparr>jserver = handle_all [Connect ''A'', Connect ''B''] init, joins = []\<rparr>"

definition overlapping_joins :: "join_action list" where
  "overlapping_joins =
     [JoinBegin ''A'' (Some \<lparr>data_roomId = ''general'', data_userEmail = ''a@x''\<rparr>),
      JoinBegin ''B'' (Some \<lparr>data_roomId = ''general'', data_userEmail = ''b@x''\<rparr>),
      Query 0 Succeeds, Query 1 Succeeds,
      JoinResume 0, JoinEmit 0, JoinResume 1, JoinEmit 1]"

section \<open>An invariant of overlapping sends\<close>

text \<open>
  Relative to a table \<open>T0\<close> and an outbox \<open>O0\<close> at the start: every \<^verbatim>\<open>new-message\<close>
  emitted since is the object of a row committed since, and so is the message of every
  request whose insert has been answered without an error.
\<close>

definition durable :: "message list \<Rightarrow> (socket_id set \<times> event) list \<Rightarrow> system \<Rightarrow> bool" where
  "durable T0 O0 y \<longleftrightarrow>
     (\<exists>new em.
        messages (server y) = T0 @ new \<and> outbox (server y) = O0 @ em \<and>
        set (new_messages (map snd em)) \<subseteq> unrow ` set new \<and>
        (\<forall>q \<in> set (requests y).
           msg_id (req_msg q) = None \<and>
           (\<forall>r. req_answer q = Some (Resolved r) \<and> resp_error r = None
                \<longrightarrow> req_msg q \<in> unrow ` set new)))"

section \<open>The handlers in closed form\<close>

lemma new_messages_append: "new_messages (xs @ ys) = new_messages xs @ new_messages ys"
  by (induction xs rule: new_messages.induct) simp_all


lemma room_histories_append: "room_histories (xs @ ys) = room_histories xs @ room_histories ys"
  by (induction xs rule: room_histories.induct) simp_all

lemma errors_append: "errors (xs @ ys) = errors xs @ errors ys"
  by (induction xs rule: errors.induct) simp_all

lemma send_message_Succeeds:
  "send_message sid r u t now Succeeds s =
     s\<lparr>messages := messages s @
          [(send_message_msg r u t now)\<lparr>msg_id := Some (Suc (length (messages s)))\<rparr>],
       outbox := outbox s @ [(rooms s r, NewMessage (send_message_msg r u t now))]\<rparr>"
  by (simp add: send_message_def store_insert_def send_message_resume_def io_to_emit_def Let_def)

lemma send_message_failed:
  "f \<noteq> Succeeds \<Longrightarrow>
   send_message sid r u t now f s =
     s\<lparr>outbox := outbox s @ [({sid}, ErrorEvent ''Failed to send message'')]\<rparr>"
  by (cases f)
     (simp_all add: send_message_def store_insert_def send_message_resume_def socket_emit_def
        Let_def)

lemma join_room_resume_ok:
  "resp_error r = None \<Longrightarrow>
   join_room_resume sid roomId (Resolved r) s =
     (s\<lparr>outbox := outbox s @
          [({sid}, RoomHistory (case resp_data r of None \<Rightarrow> [] | Some msgs \<Rightarrow> msgs))]\<rparr>,
      Some (rooms s roomId))"
  by (simp add: join_room_resume_def socket_emit_def allSockets_def Let_def)

lemma join_room_resume_failed:
  "call_failed a \<Longrightarrow>
   join_room_resume sid roomId a s =
     (s\<lparr>outbox := outbox s @
          [({sid}, ErrorEvent (case a of Rejected \<Rightarrow> ''Failed to join room''
                               | Resolved r \<Rightarrow> ''Failed to load room history''))]\<rparr>,
      None)"
  by (cases a) (simp_all add: join_room_resume_def call_failed_def socket_emit_def)

lemma join_room_emit_state:
  "join_room_emit roomId clients s =
     s\<lparr>outbox := outbox s @ [(rooms s roomId, ActiveUsers (card clients))]\<rparr>"
  by (simp add: join_room_emit_def io_to_emit_def)

lemma join_room_Succeeds:
  "join_room sid r u Succeeds s =
     s\<lparr>rooms := (rooms s)(r := insert sid (rooms s r)),
       outbox := outbox s @
         [({sid}, RoomHistory (sort_key created_at (filter (\<lambda>m. room_id m = r) (messages s)))),
          (insert sid (rooms s r), ActiveUsers (card (insert sid (rooms s r))))]\<rparr>"
  by (simp add: join_room_def store_select_def socket_join_def join_room_resume_ok
      join_room_emit_state)

lemma join_room_failed:
  "f \<noteq> Succeeds \<Longrightarrow>
   join_room sid r u f s =
     s\<lparr>rooms := (rooms s)(r := insert sid (rooms s r)),
       outbox := outbox s @
         [({sid}, ErrorEvent (if f = Fails then ''Failed to load room history''
                              else ''Failed to join room''))]\<rparr>"
  by (cases f)
     (simp_all add: join_room_def store_select_def socket_join_def join_room_resume_failed
        call_failed_def)

lemma disconnect_state:
  "disconnect sid s = s\<lparr>rooms := (\<lambda>r. rooms s r - {sid})\<rparr>"
  by (simp add: disconnect_def on_disconnect_def socket_leave_all_def)

lemma socket_connect_state:
  "socket_connect sid s = s\<lparr>rooms := (rooms s)(sid := insert sid (rooms s sid))\<rparr>"
  by (simp add: socket_connect_def socket_join_def)

lemma lobby_eq:
  "lobby =
     \<lparr>rooms = (\<lambda>_. {})(''A'' := {''A''}, ''B'' := {''B''}, ''C'' := {''C''},
                        ''general'' := {''B'', ''A''}),
      messages = [],
      outbox = [({''A''}, RoomHistory []), ({''A''}, ActiveUsers 1),
                ({''B''}, RoomHistory []), ({''B'', ''A''}, ActiveUsers 2)]\<rparr>"
  by (simp add: lobby_def init_def socket_connect_state join_room_Succeeds)

section \<open>The table only grows\<close>

lemma send_message_rooms: "rooms (send_message sid r u t now f s) = rooms s"
  by (cases "f = Succeeds") (simp_all add: send_message_Succeeds send_message_failed)

lemma send_message_messages:
  "messages (send_message sid r u t now f s) =
     messages s @ committed s (send_message sid r u t now f s)"
  by (cases "f = Succeeds")
     (simp_all add: send_message_Succeeds send_message_failed committed_def)

lemma join_room_messages: "messages (join_room sid r u f s) = messages s"
  by (cases "f = Succeeds") (simp_all add: join_room_Succeeds join_room_failed)

lemma handle_keeps_rows: "set (messages s) \<subseteq> set (messages (handle c s))"
proof (cases c)
  case (Connect sid)
  then show ?thesis by (simp add: socket_connect_state)
next
  case (JoinRoom sid r u f)
  then show ?thesis by (simp add: join_room_messages)
next
  case (SendMessage sid r u t now f)
  have "set (messages s) \<subseteq> set (messages s @ committed s (send_message sid r u t now f s))"
    by simp
  then show ?thesis by (simp only: SendMessage handle.simps send_message_messages [symmetric])
next
  case (Disconnect sid)
  then show ?thesis by (simp add: disconnect_state)
qed

lemma handle_all_keeps_rows: "m \<in> set (messages s) \<Longrightarrow> m \<in> set (messages (handle_all cs s))"
proof (induction cs arbitrary: s)
  case Nil
  then show ?case by simp
next
  case (Cons c cs)
  from Cons.prems handle_keeps_rows [of s c] have "m \<in> set (messages (handle c s))" by blast
  then show ?case by (simp add: Cons.IH)
qed

section \<open>Serial schedules\<close>

lemma run_one_send:
  "run (Begin sid r u t now # Insert (length (requests y)) f # Resume (length (requests y)) # rest)
       y =
     run rest
       \<lparr>server = send_message sid r u t now f (server y),
        requests = requests y @
          [\<lparr>req_socket = sid, req_room = r, req_msg = send_message_msg r u t now,
            req_answer =
              Some (snd (store_insert f (send_message_msg r u t now) (messages (server y)))),
            req_resumed = True\<rparr>]\<rparr>"
  by (cases y) (simp add: send_message_def Let_def split: prod.splits)

lemma run_serial:
  "\<exists>y'. run (serial (length (requests y)) xs) y = Some y' \<and> server y' = sends xs (server y)"
proof (induction xs arbitrary: y)
  case Nil
  show ?case by simp
next
  case (Cons x xs)
  obtain sid r u t now f where x: "x = (sid, r, u, t, now, f)" by (cases x)
  let ?y1 = "\<lparr>server = send_message sid r u t now f (server y),
        requests = requests y @
          [\<lparr>req_socket = sid, req_room = r, req_msg = send_message_msg r u t now,
            req_answer =
              Some (snd (store_insert f (send_message_msg r u t now) (messages (server y)))),
            req_resumed = True\<rparr>]\<rparr>"
  have len: "length (requests ?y1) = Suc (length (requests y))" by simp
  have "run (serial (length (requests y)) (x # xs)) y =
        run (serial (Suc (length (requests y))) xs) ?y1"
    by (simp only: x serial.simps run_one_send)
  then have r: "run (serial (length (requests y)) (x # xs)) y =
        run (serial (length (requests ?y1)) xs) ?y1"
    by (simp only: len)
  from Cons.IH [of ?y1] obtain y' where
    a: "run (serial (length (requests ?y1)) xs) ?y1 = Some y'" and
    b: "server y' = sends xs (server ?y1)"
    by blast
  have "run (serial (length (requests y)) (x # xs)) y = Some y'"
    using a by (simp only: r)
  moreover have "server y' = sends (x # xs) (server y)"
    using b by (simp add: x)
  ultimately show ?case by blast
qed

lemma committed_trans:
  "messages s1 = messages s @ c1 \<Longrightarrow> messages s2 = messages s1 @ c2 \<Longrightarrow>
   committed s s2 = c1 @ c2"
  by (simp add: committed_def)

lemma sends_messages: "messages (sends xs s) = messages s @ committed s (sends xs s)"
proof (induction xs s rule: sends.induct)
  case (1 s)
  show ?case by (simp add: committed_def)
next
  case (2 sid r u t now f xs s)
  let ?s1 = "send_message sid r u t now f s"
  have c: "committed s (sends xs ?s1) = committed s ?s1 @ committed ?s1 (sends xs ?s1)"
    using send_message_messages "2.IH" by (rule committed_trans)
  have "messages (sends xs ?s1) = (messages s @ committed s ?s1) @ committed ?s1 (sends xs ?s1)"
    using "2.IH" send_message_messages [of sid r u t now f s] by (simp only:)
  then show ?case by (simp only: sends.simps c append_assoc)
qed

lemma committed_sends_Cons:
  "committed s (sends ((sid, r, u, t, now, f) # xs) s) =
     committed s (send_message sid r u t now f s) @
     committed (send_message sid r u t now f s) (sends xs (send_message sid r u t now f s))"
  unfolding sends.simps using send_message_messages sends_messages by (rule committed_trans)

lemma send_message_seen:
  "new_messages (observed x (send_message sid r u t now f s)) =
     new_messages (observed x s) @
     map unrow (filter (\<lambda>m. x \<in> rooms s (room_id m))
       (committed s (send_message sid r u t now f s)))"
  by (cases "f = Succeeds")
     (simp_all add: send_message_Succeeds send_message_failed observed_def new_messages_append
        committed_def unrow_def send_message_msg_def)

lemma sends_seen:
  "new_messages (observed x (sends xs s)) =
     new_messages (observed x s) @
     map unrow (filter (\<lambda>m. x \<in> rooms s (room_id m)) (committed s (sends xs s)))"
proof (induction xs s rule: sends.induct)
  case (1 s)
  show ?case by (simp add: committed_def)
next
  case (2 sid r u t now f xs s)
  show ?case
    by (simp only: committed_sends_Cons)
       (simp add: "2.IH" send_message_seen send_message_rooms)
qed

lemma run_overlapping:
  "run overlapping \<lparr>server = lobby, requests = []\<rparr> =
     Some \<lparr>server = lobby
             \<lparr>messages :=
                [\<lparr>msg_id = Some 1, room_id = ''general'', user_email = ''a@x'',
                  msg_text = ''hi'', created_at = 1\<rparr>,
                 \<lparr>msg_id = Some 2, room_id = ''general'', user_email = ''b@x'',
                  msg_text = ''there'', created_at = 2\<rparr>],
              outbox := outbox lobby @
                [({''B'', ''A''},
                  NewMessage \<lparr>msg_id = None, room_id = ''general'', user_email = ''b@x'',
                              msg_text = ''there'', created_at = 2\<rparr>),
                 ({''B'', ''A''},
                  NewMessage \<lparr>msg_id = None, room_id = ''general'', user_email = ''a@x'',
                              msg_text = ''hi'', created_at = 1\<rparr>)]\<rparr>,
            requests =
              [\<lparr>req_socket = ''A'', req_room = ''general'',
                req_msg = \<lparr>msg_id = None, room_id = ''general'', user_email = ''a@x'',
                           msg_text = ''hi'', created_at = 1\<rparr>,
                req_answer = Some (Resolved \<lparr>resp_data = None, resp_error = None\<rparr>),
                req_resumed = True\<rparr>,
               \<lparr>req_socket = ''B'', req_room = ''general'',
                req_msg = \<lparr>msg_id = None, room_id = ''general'', user_email = ''b@x'',
                           msg_text = ''there'', created_at = 2\<rparr>,
                req_answer = Some (Resolved \<lparr>resp_data = None, resp_error = None\<rparr>),
                req_resumed = True\<rparr>]\<rparr>"
  by (simp add: overlapping_def lobby_eq store_insert_def send_message_resume_def
      io_to_emit_def send_message_msg_def Let_def)

section \<open>What has been broadcast has been committed\<close>

lemma unrow_row: "msg_id m = None \<Longrightarrow> unrow (m\<lparr>msg_id := Some n\<rparr>) = m"
  by (simp add: unrow_def)

lemma durable_step:
  assumes "durable T0 O0 y" and "step a y = Some y'"
  shows "durable T0 O0 y'"
proof -
  from assms(1) obtain new em where
    T: "messages (server y) = T0 @ new" and
    O: "outbox (server y) = O0 @ em" and
    V: "set (new_messages (map snd em)) \<subseteq> unrow ` set new" and
    Q: "\<And>q. q \<in> set (requests y) \<Longrightarrow> msg_id (req_msg q) = None"
       "\<And>q r. q \<in> set (requests y) \<Longrightarrow> req_answer q = Some (Resolved r) \<Longrightarrow> resp_error r = None
          \<Longrightarrow> req_msg q \<in> unrow ` set new"
    unfolding durable_def by blast
  show ?thesis
  proof (cases a)
    case (Begin sid r u t now)
    with assms(2) have y': "y' = y\<lparr>requests := requests y @
       [\<lparr>req_socket = sid, req_room = r, req_msg = send_message_msg r u t now,
         req_answer = None, req_resumed = False\<rparr>]\<rparr>"
      by simp
    show ?thesis
      unfolding durable_def
      apply (rule exI [of _ new], rule exI [of _ em])
      using T O V Q by (auto simp: y' send_message_msg_def)
  next
    case (Insert k f)
    with assms(2) have k: "k < length (requests y)" and un: "req_answer (requests y ! k) = None"
      by (auto split: if_splits)
    let ?q = "requests y ! k"
    have qin: "?q \<in> set (requests y)" using k by simp
    have sub: "set ((requests y)[k := q']) \<subseteq> insert q' (set (requests y))" for q'
      by (rule set_update_subset_insert)
    show ?thesis
    proof (cases "f = Succeeds")
      case True
      let ?row = "(req_msg ?q)\<lparr>msg_id := Some (Suc (length (messages (server y))))\<rparr>"
      let ?q' = "?q\<lparr>req_answer := Some (Resolved \<lparr>resp_data = None, resp_error = None\<rparr>)\<rparr>"
      from assms(2) Insert k un True
      have y': "y' = y\<lparr>server := (server y)\<lparr>messages := messages (server y) @ [?row]\<rparr>,
                        requests := (requests y)[k := ?q']\<rparr>"
        by (simp add: store_insert_def Let_def)
      have ur: "unrow ?row = req_msg ?q" using Q(1) [OF qin] by (rule unrow_row)
      have "durable T0 O0 y'"
        unfolding durable_def
      proof (intro exI [of _ "new @ [?row]"] exI [of _ em] conjI ballI allI impI)
        show "messages (server y') = T0 @ new @ [?row]" by (simp add: y' T)
        show "outbox (server y') = O0 @ em" by (simp add: y' O)
        show "set (new_messages (map snd em)) \<subseteq> unrow ` set (new @ [?row])" using V by auto
      next
        fix q assume "q \<in> set (requests y')"
        then have "q = ?q' \<or> q \<in> set (requests y)" using sub [of ?q'] by (auto simp: y')
        then show "msg_id (req_msg q) = None" using Q(1) qin by auto
      next
        fix q r assume qq: "q \<in> set (requests y')"
          and "req_answer q = Some (Resolved r) \<and> resp_error r = None"
        then have a: "req_answer q = Some (Resolved r)" "resp_error r = None" by auto
        from qq have "q = ?q' \<or> q \<in> set (requests y)" using sub [of ?q'] by (auto simp: y')
        then show "req_msg q \<in> unrow ` set (new @ [?row])"
        proof
          assume "q = ?q'"
          then have "req_msg q = unrow ?row" using ur by simp
          then show ?thesis by simp
        next
          assume "q \<in> set (requests y)"
          from Q(2) [OF this a] show ?thesis by auto
        qed
      qed
      then show ?thesis .
    next
      case False
      then obtain an where an: "store_insert f (req_msg ?q) (messages (server y)) = (messages (server y), an)"
        and bad: "\<And>r. an = Resolved r \<Longrightarrow> resp_error r \<noteq> None"
        by (cases f) (auto simp: store_insert_def)
      let ?q' = "?q\<lparr>req_answer := Some an\<rparr>"
      from assms(2) Insert k un an
      have y': "y' = y\<lparr>server := (server y)\<lparr>messages := messages (server y)\<rparr>,
                        requests := (requests y)[k := ?q']\<rparr>"
        by (simp add: Let_def)
      show ?thesis
        unfolding durable_def
      proof (intro exI [of _ new] exI [of _ em] conjI ballI allI impI)
        show "messages (server y') = T0 @ new" by (simp add: y' T)
        show "outbox (server y') = O0 @ em" by (simp add: y' O)
        show "set (new_messages (map snd em)) \<subseteq> unrow ` set new" by (rule V)
      next
        fix q assume "q \<in> set (requests y')"
        then have "q = ?q' \<or> q \<in> set (requests y)" using sub [of ?q'] by (auto simp: y')
        then show "msg_id (req_msg q) = None" using Q(1) qin by auto
      next
        fix q r assume qq: "q \<in> set (requests y')"
          and "req_answer q = Some (Resolved r) \<and> resp_error r = None"
        then have a: "req_answer q = Some (Resolved r)" "resp_error r = None" by auto
        from qq have "q = ?q' \<or> q \<in> set (requests y)" using sub [of ?q'] by (auto simp: y')
        then show "req_msg q \<in> unrow ` set new"
        proof
          assume "q = ?q'"
          with a bad show ?thesis by auto
        next
          assume "q \<in> set (requests y)"
          from Q(2) [OF this a] show ?thesis .
        qed
      qed
    qed
  next
    case (Resume k)
    with assms(2) have k: "k < length (requests y)"
      by (auto split: if_splits)
    let ?q = "requests y ! k"
    have qin: "?q \<in> set (requests y)" using k by simp
    from assms(2) Resume k obtain an where an: "req_answer ?q = Some an"
      by (auto simp: Let_def split: if_splits option.splits)
    let ?q' = "?q\<lparr>req_resumed := True\<rparr>"
    from assms(2) Resume k an
    have y': "y' = y\<lparr>server := send_message_resume (req_socket ?q) (req_room ?q) (req_msg ?q) an (server y),
                      requests := (requests y)[k := ?q']\<rparr>"
      by (auto simp: Let_def split: if_splits)
    have sub: "set ((requests y)[k := ?q']) \<subseteq> insert ?q' (set (requests y))"
      by (rule set_update_subset_insert)
    obtain e where srv: "send_message_resume (req_socket ?q) (req_room ?q) (req_msg ?q) an (server y)
        = (server y)\<lparr>outbox := outbox (server y) @ [e]\<rparr>"
      and vis: "set (new_messages [snd e]) \<subseteq> unrow ` set new"
    proof (cases "\<exists>r. an = Resolved r \<and> resp_error r = None")
      case True
      then obtain r where r: "an = Resolved r" "resp_error r = None" by blast
      have "req_msg ?q \<in> unrow ` set new" using Q(2) [OF qin] an r by simp
      then show ?thesis
        using that [of "(rooms (server y) (req_room ?q), NewMessage (req_msg ?q))"] r
        by (simp add: send_message_resume_def io_to_emit_def)
    next
      case False
      then show ?thesis
        using that [of "({req_socket ?q}, ErrorEvent ''Failed to send message'')"]
        by (cases an) (auto simp: send_message_resume_def socket_emit_def)
    qed
    show ?thesis
      unfolding durable_def
    proof (intro exI [of _ new] exI [of _ "em @ [e]"] conjI ballI allI impI)
      show "messages (server y') = T0 @ new" by (simp add: y' srv T)
      show "outbox (server y') = O0 @ em @ [e]" by (simp add: y' srv O)
      show "set (new_messages (map snd (em @ [e]))) \<subseteq> unrow ` set new"
        using V vis by (simp add: new_messages_append)
    next
      fix q assume "q \<in> set (requests y')"
      then have "q = ?q' \<or> q \<in> set (requests y)" using sub by (auto simp: y')
      then show "msg_id (req_msg q) = None" using Q(1) qin by auto
    next
      fix q r assume qq: "q \<in> set (requests y')"
        and "req_answer q = Some (Resolved r) \<and> resp_error r = None"
      then have a: "req_answer q = Some (Resolved r)" "resp_error r = None" by auto
      from qq have "q = ?q' \<or> q \<in> set (requests y)" using sub by (auto simp: y')
      then show "req_msg q \<in> unrow ` set new"
      proof
        assume "q = ?q'"
        then have "req_answer ?q = Some (Resolved r)" "req_msg q = req_msg ?q" using a by auto
        with Q(2) [OF qin _ a(2)] show ?thesis by simp
      next
        assume "q \<in> set (requests y)"
        from Q(2) [OF this a] show ?thesis .
      qed
    qed
  qed
qed

lemma durable_run:
  "durable T0 O0 y \<Longrightarrow> run acts y = Some y' \<Longrightarrow> durable T0 O0 y'"
proof (induction acts arbitrary: y)
  case Nil
  then show ?case by simp
next
  case (Cons a acts)
  from Cons.prems(2) obtain y1 where s: "step a y = Some y1" and r: "run acts y1 = Some y'"
    by (auto split: option.splits)
  from durable_step [OF Cons.prems(1) s] r show ?case by (rule Cons.IH)
qed

lemma durable_start: "durable (messages s) (outbox s) \<lparr>server = s, requests = []\<rparr>"
  unfolding durable_def by (intro exI [of _ "[]"]) simp

lemma visible_durable:
  assumes "run acts \<lparr>server = s, requests = []\<rparr> = Some y"
  shows "messages (server y) = messages s @ committed s (server y) \<and>
         outbox (server y) = outbox s @ emitted s (server y) \<and>
         set (new_messages (map snd (emitted s (server y)))) \<subseteq>
           unrow ` set (committed s (server y))"
proof -
  from durable_run [OF durable_start assms]
  show ?thesis unfolding durable_def by (auto simp: emitted_def committed_def)
qed

section \<open>The steps of a join\<close>







section \<open>The example schedules, run\<close>
















text \<open>
  Joins that overlap: the first count emitted is already 2 and goes to both sockets,
  where two joins handled in turn emit 1 to \<open>A\<close> and then 2 to both (\<open>lobby_eq\<close>).
\<close>

lemma run_overlapping_joins:
  "map_option (\<lambda>y. outbox (jserver y)) (join_run overlapping_joins doorstep) =
     Some [({''A''}, RoomHistory []), ({''B'', ''A''}, ActiveUsers 2),
           ({''B''}, RoomHistory []), ({''B'', ''A''}, ActiveUsers 2)]"
  by (simp add: overlapping_joins_def doorstep_def init_def socket_connect_state
      socket_join_def store_select_def join_room_resume_ok join_room_emit_state Let_def)

section \<open>The claims\<close>

subsection \<open>C1: order of broadcasts and order of commits\<close>

text \<open>
  Claim C1, as the code has it. The handler of \<^verbatim>\<open>send-message\<close> takes no lock and
  keeps no queue. When the sends are handled one after the other, each insert answered
  and its handler finished before the next send starts, the run exists, and every socket
  \<open>x\<close> observes as \<^verbatim>\<open>new-message\<close> events exactly the messages committed to the rooms
  it is in, in the order the Store committed them.
\<close>

theorem serial_sends_commit_order:
  "\<exists>y. run (serial 0 xs) \<lparr>server = s, requests = []\<rparr> = Some y \<and>
       messages (server y) = messages s @ committed s (server y) \<and>
       new_messages (observed x (server y)) =
         new_messages (observed x s) @
         map unrow (filter (\<lambda>m. x \<in> rooms s (room_id m)) (committed s (server y)))"
proof -
  from run_serial [of "\<lparr>server = s, requests = []\<rparr>" xs]
  obtain y where r: "run (serial 0 xs) \<lparr>server = s, requests = []\<rparr> = Some y"
    and y: "server y = sends xs s" by auto
  have "messages (server y) = messages s @ committed s (server y)"
    using sends_messages [of xs s] by (simp only: y)
  moreover have "new_messages (observed x (server y)) =
         new_messages (observed x s) @
         map unrow (filter (\<lambda>m. x \<in> rooms s (room_id m)) (committed s (server y)))"
    using sends_seen [of x xs s] by (simp only: y)
  ultimately show ?thesis using r by blast
qed

text \<open>
  Claim C1 as stated fails when two sends to one room overlap: in the schedule
  \<open>overlapping\<close> the Store commits "hi" before "there", and both members of the room
  are sent "there" before "hi".
\<close>

theorem overlapping_sends_reorder:
  "run overlapping \<lparr>server = lobby, requests = []\<rparr> \<noteq> None \<and>
   map msg_text
     (committed lobby (server (the (run overlapping \<lparr>server = lobby, requests = []\<rparr>)))) =
     [''hi'', ''there''] \<and>
   map msg_text
     (new_messages
        (observed ''A'' (server (the (run overlapping \<lparr>server = lobby, requests = []\<rparr>))))) =
     [''there'', ''hi''] \<and>
   map msg_text
     (new_messages
        (observed ''B'' (server (the (run overlapping \<lparr>server = lobby, requests = []\<rparr>))))) =
     [''there'', ''hi'']"
  by (simp add: run_overlapping) (simp add: lobby_eq committed_def observed_def)

subsection \<open>C2: what a send is checked for\<close>



subsection \<open>C3: the count of active users\<close>




subsection \<open>C4: disconnect\<close>

text \<open>
  Claim C4, as the code has it. After a socket's connection has closed the socket is in
  no room: socket.io has taken it out of each. The \<^verbatim>\<open>disconnect\<close> handler itself only
  logs: it changes nothing, no count is computed and nothing is emitted for any room.
  Closing twice is the same as closing once.
\<close>

theorem disconnect_leaves_silently:
  "sid \<notin> rooms (disconnect sid s) r \<and>
   rooms (disconnect sid s) r = rooms s r - {sid} \<and>
   outbox (disconnect sid s) = outbox s \<and>
   messages (disconnect sid s) = messages s \<and>
   on_disconnect sid s = s \<and>
   disconnect sid (disconnect sid s) = disconnect sid s"
  by (simp add: disconnect_state on_disconnect_def)

text \<open>
  Claim C4 as stated fails: \<open>A\<close> is in \<open>general\<close>, disconnects and is out of it, and
  the number of \<^verbatim>\<open>active-users\<close> events emitted for that is zero, not one.
\<close>

theorem disconnect_emits_no_count:
  "''A'' \<in> rooms lobby ''general'' \<and>
   ''A'' \<notin> rooms (disconnect ''A'' lobby) ''general'' \<and>
   length (active_users (map snd (emitted lobby (disconnect ''A'' lobby)))) = 0"
  by (simp add: lobby_eq disconnect_state emitted_def)

subsection \<open>C5: a failed insert\<close>

text \<open>
  Claim C5. When the insert fails or throws, the one emission of the handler is an
  \<^verbatim>\<open>error\<close> event to the sending socket: no socket observes a new
  \<^verbatim>\<open>new-message\<close>, only the sender observes a new error, and the rooms and the table
  are what they were. And in every run of overlapping sends, whatever the schedule,
  each \<^verbatim>\<open>new-message\<close> emitted is the object of a row the Store has committed by then:
  the broadcast of a message never precedes its insert.
\<close>

theorem persist_before_broadcast:
  "(f \<noteq> Succeeds \<longrightarrow>
      messages (send_message sid r u t now f s) = messages s \<and>
      rooms (send_message sid r u t now f s) = rooms s \<and>
      outbox (send_message sid r u t now f s) =
        outbox s @ [({sid}, ErrorEvent ''Failed to send message'')] \<and>
      new_messages (observed x (send_message sid r u t now f s)) =
        new_messages (observed x s) \<and>
      errors (observed x (send_message sid r u t now f s)) =
        errors (observed x s) @ (if x = sid then [''Failed to send message''] else [])) \<and>
   (run acts \<lparr>server = s, requests = []\<rparr> = Some y \<longrightarrow>
      messages (server y) = messages s @ committed s (server y) \<and>
      outbox (server y) = outbox s @ emitted s (server y) \<and>
      set (new_messages (map snd (emitted s (server y)))) \<subseteq>
        unrow ` set (committed s (server y)))"
proof (intro conjI impI)
  assume f: "f \<noteq> Succeeds"
  show "messages (send_message sid r u t now f s) = messages s"
    and "rooms (send_message sid r u t now f s) = rooms s"
    and "outbox (send_message sid r u t now f s) =
        outbox s @ [({sid}, ErrorEvent ''Failed to send message'')]"
    and "new_messages (observed x (send_message sid r u t now f s)) =
        new_messages (observed x s)"
    and "errors (observed x (send_message sid r u t now f s)) =
        errors (observed x s) @ (if x = sid then [''Failed to send message''] else [])"
    using f
    by (simp_all add: send_message_failed observed_def new_messages_append errors_append)
next
  assume "run acts \<lparr>server = s, requests = []\<rparr> = Some y"
  from visible_durable [OF this]
  show "messages (server y) = messages s @ committed s (server y)"
    and "outbox (server y) = outbox s @ emitted s (server y)"
    and "set (new_messages (map snd (emitted s (server y)))) \<subseteq>
        unrow ` set (committed s (server y))"
    by simp_all
qed

text \<open>
  The theorem of C5 at a failing send of \<open>A\<close> in \<open>lobby\<close>, and at the schedule
  \<open>overlapping\<close>.
\<close>

theorem persist_before_broadcast_witness:
  "Fails \<noteq> Succeeds \<and>
   messages (send_message ''A'' ''general'' ''a@x'' ''hi'' 1 Fails lobby) = messages lobby \<and>
   outbox (send_message ''A'' ''general'' ''a@x'' ''hi'' 1 Fails lobby) =
     outbox lobby @ [({''A''}, ErrorEvent ''Failed to send message'')] \<and>
   new_messages (observed ''B'' (send_message ''A'' ''general'' ''a@x'' ''hi'' 1 Fails lobby)) =
     new_messages (observed ''B'' lobby) \<and>
   run overlapping \<lparr>server = lobby, requests = []\<rparr> \<noteq> None \<and>
   set (new_messages (map snd
         (emitted lobby (server (the (run overlapping \<lparr>server = lobby, requests = []\<rparr>)))))) \<subseteq>
     unrow ` set
       (committed lobby (server (the (run overlapping \<lparr>server = lobby, requests = []\<rparr>))))"
proof -
  have f: "Fails \<noteq> Succeeds" by simp
  have n: "run overlapping \<lparr>server = lobby, requests = []\<rparr> \<noteq> None"
    by (simp add: run_overlapping)
  then have r: "run overlapping \<lparr>server = lobby, requests = []\<rparr> =
             Some (the (run overlapping \<lparr>server = lobby, requests = []\<rparr>))"
    by (rule option.collapse [symmetric])
  from persist_before_broadcast
         [where f = Fails and sid = "''A''" and r = "''general''" and u = "''a@x''"
            and t = "''hi''" and now = 1 and s = lobby and x = "''B''"
            and acts = overlapping
            and y = "the (run overlapping \<lparr>server = lobby, requests = []\<rparr>)"]
  show ?thesis using f n r by blast
qed

subsection \<open>C6: the history of the room\<close>




subsection \<open>C7: who is sent a new message\<close>

text \<open>
  Claim C7, as the code has it. A message the Store has accepted is emitted once, to the
  sockets that are in the room at that moment: each of them observes it, no other socket
  does. The sender is among them when it is itself in the room, and only then.
\<close>

theorem new_message_to_members:
  "outbox (send_message sid r u t now Succeeds s) =
     outbox s @ [(rooms s r, NewMessage (send_message_msg r u t now))] \<and>
   new_messages (observed x (send_message sid r u t now Succeeds s)) =
     new_messages (observed x s) @
       (if x \<in> rooms s r then [send_message_msg r u t now] else []) \<and>
   new_messages (observed sid (send_message sid r u t now Succeeds s)) =
     new_messages (observed sid s) @
       (if sid \<in> rooms s r then [send_message_msg r u t now] else [])"
  by (simp add: send_message_Succeeds observed_def new_messages_append)

text \<open>
  Claim C7 as stated fails: \<open>C\<close>, which is in no room, sends to \<open>general\<close>; the row is
  committed, \<open>A\<close> is sent the message, and \<open>C\<close> is sent nothing.
\<close>

theorem outsider_not_served:
  "''C'' \<notin> rooms lobby ''general'' \<and>
   messages (send_message ''C'' ''general'' ''c@x'' ''hi'' 7 Succeeds lobby) =
     [\<lparr>msg_id = Some 1, room_id = ''general'', user_email = ''c@x'', msg_text = ''hi'',
       created_at = 7\<rparr>] \<and>
   new_messages (observed ''A'' (send_message ''C'' ''general'' ''c@x'' ''hi'' 7 Succeeds lobby)) =
     [\<lparr>msg_id = None, room_id = ''general'', user_email = ''c@x'', msg_text = ''hi'',
       created_at = 7\<rparr>] \<and>
   new_messages (observed ''C'' (send_message ''C'' ''general'' ''c@x'' ''hi'' 7 Succeeds lobby)) =
     []"
  by (simp add: lobby_eq send_message_Succeeds observed_def send_message_msg_def)

subsection \<open>C8: a failed history query\<close>

text \<open>
  Claim C8. When the history query of a \<^verbatim>\<open>join-room\<close> fails or throws, the joining
  socket is in the room afterwards, the rooms are what \<^verbatim>\<open>socket.join\<close> has made them,
  the table is untouched, and the one emission is an \<^verbatim>\<open>error\<close> event to the joining
  socket.
\<close>

theorem history_failure_keeps_join:
  "f \<noteq> Succeeds \<Longrightarrow>
   sid \<in> rooms (join_room sid r u f s) r \<and>
   rooms (join_room sid r u f s) = rooms (socket_join sid r s) \<and>
   messages (join_room sid r u f s) = messages s \<and>
   outbox (join_room sid r u f s) =
     outbox s @
     [({sid}, ErrorEvent (if f = Fails then ''Failed to load room history''
                          else ''Failed to join room''))]"
  by (simp add: join_room_failed socket_join_def)

text \<open>The theorem of C8 at \<open>C\<close> joining \<open>general\<close> while the query fails.\<close>

theorem history_failure_keeps_join_witness:
  "Fails \<noteq> Succeeds \<and>
   ''C'' \<in> rooms (join_room ''C'' ''general'' ''c@x'' Fails lobby) ''general'' \<and>
   outbox (join_room ''C'' ''general'' ''c@x'' Fails lobby) =
     outbox lobby @ [({''C''}, ErrorEvent ''Failed to load room history'')]"
proof -
  have f: "Fails \<noteq> Succeeds" by simp
  note w = history_failure_keeps_join
             [OF f, where sid = "''C''" and r = "''general''" and u = "''c@x''" and s = lobby]
  from w have a: "''C'' \<in> rooms (join_room ''C'' ''general'' ''c@x'' Fails lobby) ''general''"
    by (rule conjunct1)
  from w have b: "outbox (join_room ''C'' ''general'' ''c@x'' Fails lobby) =
     outbox lobby @ [({''C''}, ErrorEvent ''Failed to load room history'')]"
    by simp
  from f a b show ?thesis by blast
qed

subsection \<open>C9: no check of membership on send\<close>

text \<open>
  Claim C9. What a send does to the server does not depend on which socket sends it, so
  not on whether that socket is in the room: an accepted insert is committed and
  broadcast to the room all the same. The only error a send is ever answered with is
  "Failed to send message", and only when the insert fails or throws.
\<close>

theorem send_ignores_membership:
  "send_message sid r u t now Succeeds s = send_message sid' r u t now Succeeds s \<and>
   messages (send_message sid r u t now Succeeds s) =
     messages s @
     [(send_message_msg r u t now)\<lparr>msg_id := Some (Suc (length (messages s)))\<rparr>] \<and>
   outbox (send_message sid r u t now Succeeds s) =
     outbox s @ [(rooms s r, NewMessage (send_message_msg r u t now))] \<and>
   errors (map snd (emitted s (send_message sid r u t now f s))) =
     (if f = Succeeds then [] else [''Failed to send message''])"
  by (cases "f = Succeeds")
     (simp_all add: send_message_Succeeds send_message_failed emitted_def)

subsection \<open>C10: the identifier of a message\<close>

text \<open>
  Claim C10. The object broadcast as \<^verbatim>\<open>new-message\<close> is the one the handler built: it
  has no identifier. The row committed for it has the same fields and an identifier, and
  whatever the server handles next, the \<^verbatim>\<open>room-history\<close> of a later join of the room
  contains that row, identifier included.
\<close>

theorem broadcast_without_id:
  "let m = send_message_msg r u t now;
       row = m\<lparr>msg_id := Some (Suc (length (messages s)))\<rparr>;
       s1 = send_message sid r u t now Succeeds s;
       s2 = handle_all cs s1
   in msg_id m = None \<and>
      outbox s1 = outbox s @ [(rooms s r, NewMessage m)] \<and>
      messages s1 = messages s @ [row] \<and>
      msg_id row \<noteq> None \<and> unrow row = m \<and>
      (\<exists>h. room_histories (observed sid' (join_room sid' r u' Succeeds s2)) =
              room_histories (observed sid' s2) @ [h] \<and>
            row \<in> set h)"
proof -
  define m where "m = send_message_msg r u t now"
  define row where "row = m\<lparr>msg_id := Some (Suc (length (messages s)))\<rparr>"
  define s1 where "s1 = send_message sid r u t now Succeeds s"
  define s2 where "s2 = handle_all cs s1"
  define h where "h = sort_key created_at (filter (\<lambda>m. room_id m = r) (messages s2))"
  have m: "msg_id m = None" "room_id m = r" by (simp_all add: m_def send_message_msg_def)
  have s1: "outbox s1 = outbox s @ [(rooms s r, NewMessage m)]" "messages s1 = messages s @ [row]"
    by (simp_all add: s1_def send_message_Succeeds m_def row_def)
  have "row \<in> set (messages s1)" by (simp add: s1)
  then have "row \<in> set (messages s2)" unfolding s2_def by (rule handle_all_keeps_rows)
  then have "row \<in> set h" using m by (simp add: h_def row_def)
  moreover have "room_histories (observed sid' (join_room sid' r u' Succeeds s2)) =
              room_histories (observed sid' s2) @ [h]"
    by (simp add: join_room_Succeeds observed_def room_histories_append h_def)
  ultimately have "\<exists>h. room_histories (observed sid' (join_room sid' r u' Succeeds s2)) =
              room_histories (observed sid' s2) @ [h] \<and> row \<in> set h"
    by blast
  moreover have "msg_id row \<noteq> None" "unrow row = m" using m by (simp_all add: row_def unrow_def)
  ultimately show ?thesis
    using m s1 unfolding Let_def m_def [symmetric] row_def [symmetric] s1_def [symmetric]
      s2_def [symmetric]
    by blast
qed

end
